theory Spec2Isabelle
  imports Complex_Main "HOL-Library.Char_ord" "HOL-Library.List_Lexorder"
    "HOL-Library.Product_Lexorder" "HOL-Library.AList"
begin

section \<open>The COCO converter for the strawberries dataset\<close>

text \<open>
  A shallow embedding of \<^verbatim>\<open>scripts/convert_to_coco.py\<close>. The script reads a
  directory tree and builds three lists (images, annotations, categories) per split.
  The directory tree is an explicit value, every exception that can leave a function
  is a value \<open>Inl e\<close>, and the loops are recursive functions over the lists they visit.
\<close>

subsection \<open>Errors\<close>

text \<open>The exceptions that Python raises on the paths the script takes.\<close>

datatype pyerr =
    ValueError
  | KeyError
  | TypeError
  | FileNotFoundError
  | NotADirectoryError
  | IsADirectoryError
  | UnicodeDecodeError
  | CsvError
  | JSONDecodeError
  | UnidentifiedImageError

text \<open>Sequencing: the first exception ends the computation.\<close>

definition and_then :: "pyerr + 'a \<Rightarrow> ('a \<Rightarrow> pyerr + 'b) \<Rightarrow> pyerr + 'b" where
  "and_then m f = (case m of Inl e \<Rightarrow> Inl e | Inr x \<Rightarrow> f x)"

subsection \<open>The directory tree\<close>

text \<open>
  One entry of a label map as \<^verbatim>\<open>json.load\<close> returns it: a JSON object whose
  \<^verbatim>\<open>label_id\<close> is an integer and whose \<^verbatim>\<open>object_name\<close> is a string
  (the script's own type is \<^verbatim>\<open>Dict[int, str]\<close>); \<open>None\<close> is an absent key.
\<close>

record labelmap_item =
  label_id :: "int option"
  object_name :: "string option"

text \<open>
  A regular file is represented by what each library reader of the script returns on
  it, \<open>None\<close> when that reader raises:
  \<^item> \<open>as_text\<close>: \<^verbatim>\<open>Path.read_text(encoding="utf-8")\<close>, the decoded text
    (characters are code points below 256);
  \<^item> \<open>as_csv\<close>: the records that \<^verbatim>\<open>csv.reader\<close> yields, one list of fields
    per record, the header record first;
  \<^item> \<open>as_json\<close>: \<^verbatim>\<open>json.load\<close>, an array of label-map objects;
  \<^item> \<open>as_image\<close>: the (width, height) that PIL reads from the image header.
\<close>

record fdata =
  as_text :: "string option"
  as_csv :: "string list list option"
  as_json :: "labelmap_item list option"
  as_image :: "(nat \<times> nat) option"

text \<open>
  A directory lists its entries in the order in which the platform enumerates them
  (\<^verbatim>\<open>iterdir\<close>, \<^verbatim>\<open>glob\<close>). Symbolic links and permissions are not modelled;
  names are compared case-sensitively.
\<close>

datatype node = File fdata | Dir "(string \<times> node) list"

type_synonym path = "string list"

fun lookup :: "node \<Rightarrow> path \<Rightarrow> node option" where
  "lookup n [] = Some n"
| "lookup n (c # cs) =
     (case n of
        File _ \<Rightarrow> None
      | Dir es \<Rightarrow> (case map_of es c of None \<Rightarrow> None | Some m \<Rightarrow> lookup m cs))"

definition exists :: "node \<Rightarrow> path \<Rightarrow> bool" where
  "exists fs p = (lookup fs p \<noteq> None)"

definition is_dir :: "node \<Rightarrow> path \<Rightarrow> bool" where
  "is_dir fs p = (case lookup fs p of Some (Dir _) \<Rightarrow> True | _ \<Rightarrow> False)"

text \<open>\<^verbatim>\<open>Path.iterdir()\<close>: the children, in the platform's order.\<close>

definition iterdir :: "node \<Rightarrow> path \<Rightarrow> pyerr + path list" where
  "iterdir fs p =
     (case lookup fs p of
        None \<Rightarrow> Inl FileNotFoundError
      | Some (File _) \<Rightarrow> Inl NotADirectoryError
      | Some (Dir es) \<Rightarrow> Inr (map (\<lambda>e. p @ [fst e]) es))"

definition ends_with :: "string \<Rightarrow> string \<Rightarrow> bool" where
  "ends_with ext name =
     (length ext \<le> length name \<and> drop (length name - length ext) name = ext)"

text \<open>
  \<^verbatim>\<open>images_dir.glob("*" + ext)\<close>: the children whose name ends with \<open>ext\<close>,
  directories and names with a leading dot included; nothing when the path is not a
  directory.
\<close>

definition glob :: "node \<Rightarrow> path \<Rightarrow> string \<Rightarrow> path list" where
  "glob fs p ext =
     (case lookup fs p of
        Some (Dir es) \<Rightarrow> map (\<lambda>e. p @ [fst e]) (filter (\<lambda>e. ends_with ext (fst e)) es)
      | _ \<Rightarrow> [])"

text \<open>
  \<^verbatim>\<open>PurePath.stem\<close>, as pathlib defines it in Python 3.11: with \<open>i\<close> the index
  of the last dot of the name, the name up to \<open>i\<close> when \<open>0 < i < len(name) - 1\<close>,
  the whole name otherwise (so the stem of \<open>a.jpg\<close> is \<open>a\<close> and the stem of
  \<open>.jpg\<close> is \<open>.jpg\<close>).
\<close>

definition rfind_dot :: "string \<Rightarrow> nat option" where
  "rfind_dot name =
     (if CHR ''.'' \<in> set name
      then Some (length name - 1 - length (takeWhile (\<lambda>c. c \<noteq> CHR ''.'') (rev name)))
      else None)"

definition path_stem :: "path \<Rightarrow> string" where
  "path_stem p =
     (let name = last p in
      case rfind_dot name of
        None \<Rightarrow> name
      | Some i \<Rightarrow> if 0 < i \<and> i < length name - 1 then take i name else name)"

subsection \<open>read_split_list\<close>

text \<open>The line boundaries of \<^verbatim>\<open>str.splitlines\<close> and the white space of
  \<^verbatim>\<open>str.strip\<close>, among the code points below 256.\<close>

definition is_linebreak :: "char \<Rightarrow> bool" where
  "is_linebreak c =
     (c \<in> set [CHR 0x0A, CHR 0x0B, CHR 0x0C, CHR 0x0D, CHR 0x1C, CHR 0x1D, CHR 0x1E, CHR 0x85])"

definition is_space :: "char \<Rightarrow> bool" where
  "is_space c =
     (c \<in> set [CHR 0x09, CHR 0x0A, CHR 0x0B, CHR 0x0C, CHR 0x0D, CHR 0x1C, CHR 0x1D,
               CHR 0x1E, CHR 0x1F, CHR 0x20, CHR 0x85, CHR 0xA0])"

fun splitlines_from :: "string \<Rightarrow> string \<Rightarrow> string list" where
  "splitlines_from cur [] = (if cur = [] then [] else [cur])"
| "splitlines_from cur [c] =
     (if is_linebreak c then [cur] else [cur @ [c]])"
| "splitlines_from cur (c # d # cs) =
     (if c = CHR 0x0D \<and> d = CHR 0x0A then cur # splitlines_from [] cs
      else if is_linebreak c then cur # splitlines_from [] (d # cs)
      else splitlines_from (cur @ [c]) (d # cs))"

definition splitlines :: "string \<Rightarrow> string list" where
  "splitlines s = splitlines_from [] s"

definition strip :: "string \<Rightarrow> string" where
  "strip s = dropWhile is_space (rev (dropWhile is_space (rev s)))"

definition read_text :: "node \<Rightarrow> path \<Rightarrow> pyerr + string" where
  "read_text fs p =
     (case lookup fs p of
        None \<Rightarrow> Inl FileNotFoundError
      | Some (Dir _) \<Rightarrow> Inl IsADirectoryError
      | Some (File d) \<Rightarrow> (case as_text d of None \<Rightarrow> Inl UnicodeDecodeError | Some s \<Rightarrow> Inr s))"

definition read_split_list :: "node \<Rightarrow> path \<Rightarrow> pyerr + string list" where
  "read_split_list fs split_file =
     (if \<not> exists fs split_file then Inr []
      else case read_text fs split_file of
             Inl e \<Rightarrow> Inl e
           | Inr s \<Rightarrow> Inr (filter (\<lambda>line. line \<noteq> []) (map strip (splitlines s))))"

subsection \<open>image_size\<close>

definition image_size :: "node \<Rightarrow> path \<Rightarrow> pyerr + (nat \<times> nat)" where
  "image_size fs image_path =
     (case lookup fs image_path of
        None \<Rightarrow> Inl FileNotFoundError
      | Some (Dir _) \<Rightarrow> Inl IsADirectoryError
      | Some (File d) \<Rightarrow> (case as_image d of None \<Rightarrow> Inl UnidentifiedImageError | Some wh \<Rightarrow> Inr wh))"

subsection \<open>parse_csv_boxes\<close>

text \<open>
  \<^verbatim>\<open>csv.DictReader\<close>: the first record gives the field names; every later
  record that is not empty becomes a dictionary \<open>dict(zip(fieldnames, row))\<close>, and
  the field names beyond a short row are bound to \<^verbatim>\<open>None\<close> (the reader's
  \<^verbatim>\<open>restval\<close>). A cell is \<open>Some s\<close> for a string and \<open>None\<close> for
  \<^verbatim>\<open>None\<close>. The surplus fields of a long row go under the key \<^verbatim>\<open>None\<close>,
  which the script never reads.
\<close>

type_synonym csv_row = "string \<rightharpoonup> string option"

definition dict_row :: "string list \<Rightarrow> string list \<Rightarrow> csv_row" where
  "dict_row fieldnames row =
     map_of (rev (zip fieldnames (map Some row)))
       ++ map_of (map (\<lambda>k. (k, None)) (drop (length row) fieldnames))"

definition DictReader :: "string list list \<Rightarrow> csv_row list" where
  "DictReader recs =
     (case recs of
        [] \<Rightarrow> []
      | fieldnames # rest \<Rightarrow> map (dict_row fieldnames) (filter (\<lambda>r. r \<noteq> []) rest))"

text \<open>
  \<^verbatim>\<open>float(row.get(k, 0))\<close> and \<^verbatim>\<open>int(row.get(k, 1))\<close>. Python's own
  \<^verbatim>\<open>float\<close> and \<^verbatim>\<open>int\<close> on a string are the parameters \<open>pfloat\<close> and
  \<open>pint\<close> (\<open>None\<close> where Python raises ValueError); the float type \<open>'f\<close> is any
  type with a zero, an order and a product, so nothing is assumed of float arithmetic.
  On \<^verbatim>\<open>None\<close> both raise TypeError.
\<close>

definition get_float :: "(string \<Rightarrow> 'f option) \<Rightarrow> csv_row \<Rightarrow> string \<Rightarrow> pyerr + 'f::zero" where
  "get_float pfloat row k =
     (case row k of
        None \<Rightarrow> Inr 0
      | Some None \<Rightarrow> Inl TypeError
      | Some (Some s) \<Rightarrow> (case pfloat s of None \<Rightarrow> Inl ValueError | Some v \<Rightarrow> Inr v))"

definition get_int :: "(string \<Rightarrow> int option) \<Rightarrow> csv_row \<Rightarrow> string \<Rightarrow> pyerr + int" where
  "get_int pint row k =
     (case row k of
        None \<Rightarrow> Inr 1
      | Some None \<Rightarrow> Inl TypeError
      | Some (Some s) \<Rightarrow> (case pint s of None \<Rightarrow> Inl ValueError | Some v \<Rightarrow> Inr v))"

record 'f box =
  bbox :: "'f list"
  area :: 'f
  category_id :: int

text \<open>The body of the \<^verbatim>\<open>try\<close>: the box to append, if any, or the exception.\<close>

definition try_row ::
  "(string \<Rightarrow> 'f option) \<Rightarrow> (string \<Rightarrow> int option) \<Rightarrow> csv_row
     \<Rightarrow> pyerr + ('f::{zero,ord,times}) box option" where
  "try_row pfloat pint row =
     and_then (get_float pfloat row ''x'') (\<lambda>x.
     and_then (get_float pfloat row ''y'') (\<lambda>y.
     and_then (get_float pfloat row ''width'') (\<lambda>width.
     and_then (get_float pfloat row ''height'') (\<lambda>height.
     and_then (get_int pint row ''label'') (\<lambda>label.
       if 0 < width \<and> 0 < height
       then Inr (Some \<lparr>bbox = [x, y, width, height], area = width * height,
                       category_id = label\<rparr>)
       else Inr None)))))"

text \<open>The loop over the rows; \<^verbatim>\<open>except (ValueError, KeyError): continue\<close>.\<close>

fun parse_rows ::
  "(string \<Rightarrow> 'f option) \<Rightarrow> (string \<Rightarrow> int option) \<Rightarrow> csv_row list
     \<Rightarrow> 'f box list \<Rightarrow> pyerr + ('f::{zero,ord,times}) box list" where
  "parse_rows pfloat pint [] boxes = Inr boxes"
| "parse_rows pfloat pint (row # rows) boxes =
     (case try_row pfloat pint row of
        Inr (Some b) \<Rightarrow> parse_rows pfloat pint rows (boxes @ [b])
      | Inr None \<Rightarrow> parse_rows pfloat pint rows boxes
      | Inl e \<Rightarrow> if e = ValueError \<or> e = KeyError
                 then parse_rows pfloat pint rows boxes
                 else Inl e)"

definition open_csv :: "node \<Rightarrow> path \<Rightarrow> pyerr + string list list" where
  "open_csv fs p =
     (case lookup fs p of
        None \<Rightarrow> Inl FileNotFoundError
      | Some (Dir _) \<Rightarrow> Inl IsADirectoryError
      | Some (File d) \<Rightarrow> (case as_csv d of None \<Rightarrow> Inl CsvError | Some recs \<Rightarrow> Inr recs))"

definition parse_csv_boxes ::
  "(string \<Rightarrow> 'f option) \<Rightarrow> (string \<Rightarrow> int option) \<Rightarrow> node \<Rightarrow> path
     \<Rightarrow> pyerr + ('f::{zero,ord,times}) box list" where
  "parse_csv_boxes pfloat pint fs csv_path =
     (if \<not> exists fs csv_path then Inr []
      else case open_csv fs csv_path of
             Inl e \<Rightarrow> Inl e
           | Inr recs \<Rightarrow> parse_rows pfloat pint (DictReader recs) [])"

subsection \<open>load_labelmap\<close>

text \<open>
  The dictionary \<open>id_to_name\<close> is an association list in insertion order:
  assigning to a key that is present replaces its value in place, as
  \<open>AList.update\<close> does.
\<close>

definition json_load :: "node \<Rightarrow> path \<Rightarrow> pyerr + labelmap_item list" where
  "json_load fs p =
     (case lookup fs p of
        None \<Rightarrow> Inl FileNotFoundError
      | Some (Dir _) \<Rightarrow> Inl IsADirectoryError
      | Some (File d) \<Rightarrow> (case as_json d of None \<Rightarrow> Inl JSONDecodeError | Some v \<Rightarrow> Inr v))"

fun labelmap_loop ::
  "labelmap_item list \<Rightarrow> (int \<times> string) list \<Rightarrow> pyerr + (int \<times> string) list" where
  "labelmap_loop [] id_to_name = Inr id_to_name"
| "labelmap_loop (item # items) id_to_name =
     (case object_name item of
        None \<Rightarrow> Inl KeyError
      | Some nm \<Rightarrow>
          if nm \<noteq> ''background''
          then (case label_id item of
                  None \<Rightarrow> Inl KeyError
                | Some i \<Rightarrow> labelmap_loop items (AList.update i nm id_to_name))
          else labelmap_loop items id_to_name)"

definition load_labelmap :: "node \<Rightarrow> path \<Rightarrow> pyerr + (int \<times> string) list" where
  "load_labelmap fs labelmap_path =
     (if \<not> exists fs labelmap_path then Inr []
      else case json_load fs labelmap_path of
             Inl e \<Rightarrow> Inl e
           | Inr labelmap \<Rightarrow> labelmap_loop labelmap [])"

subsection \<open>collect_annotations_for_category\<close>

record image_rec =
  img_id :: int
  img_file_name :: string
  img_width :: nat
  img_height :: nat

record 'f ann_rec =
  ann_id :: int
  ann_image_id :: int
  ann_category_id :: int
  ann_bbox :: "'f list"
  ann_area :: 'f
  ann_iscrowd :: int

record cat_rec =
  cat_id :: int
  cat_name :: string
  cat_supercategory :: string

text \<open>The two lists under construction and the two counters.\<close>

record 'f cstate =
  images :: "image_rec list"
  anns :: "'f ann_rec list"
  image_id_counter :: int
  ann_id_counter :: int

text \<open>\<^verbatim>\<open>category_name[:-1] if category_name.endswith('s') else category_name\<close>\<close>

definition supercategory :: "string \<Rightarrow> string" where
  "supercategory category_name =
     (if ends_with ''s'' category_name then butlast category_name else category_name)"

text \<open>
  \<^verbatim>\<open>sorted(id_to_name.items())\<close> orders the pairs as Python orders tuples,
  first by the label id and then by the name.
\<close>

definition make_categories :: "string \<Rightarrow> (int \<times> string) list \<Rightarrow> cat_rec list" where
  "make_categories category_name id_to_name =
     map (\<lambda>item. \<lparr>cat_id = fst item, cat_name = snd item,
                   cat_supercategory = supercategory category_name\<rparr>)
         (sort id_to_name)"

definition extensions :: "string list" where
  "extensions = [''.jpg'', ''.JPG'', ''.png'', ''.PNG'', ''.bmp'', ''.BMP'']"

text \<open>The first candidate path that exists, \<open>None\<close> when the loop ends without one.\<close>

definition resolve_image :: "node \<Rightarrow> path \<Rightarrow> string \<Rightarrow> path option" where
  "resolve_image fs images_dir stem =
     find (exists fs) (map (\<lambda>ext. images_dir @ [stem @ ext]) extensions)"

fun add_boxes :: "'f box list \<Rightarrow> 'f cstate \<Rightarrow> 'f cstate" where
  "add_boxes [] st = st"
| "add_boxes (b # bs) st =
     add_boxes bs
       (st\<lparr>anns := anns st @
              [\<lparr>ann_id = ann_id_counter st, ann_image_id = image_id_counter st,
                ann_category_id = category_id b, ann_bbox = bbox b, ann_area = area b,
                ann_iscrowd = 0\<rparr>],
           ann_id_counter := ann_id_counter st + 1\<rparr>)"

text \<open>The body of the loop over the stems of one subcategory.\<close>

definition stem_step ::
  "(string \<Rightarrow> 'f option) \<Rightarrow> (string \<Rightarrow> int option) \<Rightarrow> node \<Rightarrow> string \<Rightarrow> string
     \<Rightarrow> path \<Rightarrow> path \<Rightarrow> string \<Rightarrow> 'f cstate \<Rightarrow> pyerr + ('f::{zero,ord,times}) cstate" where
  "stem_step pfloat pint fs category_name subcategory_name images_dir annotations_dir stem st =
     (case resolve_image fs images_dir stem of
        None \<Rightarrow> Inr st
      | Some img_path \<Rightarrow>
          and_then (image_size fs img_path) (\<lambda>wh.
          let st1 = st\<lparr>images := images st @
                      [\<lparr>img_id = image_id_counter st,
                        img_file_name = category_name @ ''/'' @ subcategory_name
                                          @ ''/images/'' @ last img_path,
                        img_width = fst wh, img_height = snd wh\<rparr>]\<rparr>
          in
          and_then (parse_csv_boxes pfloat pint fs (annotations_dir @ [stem @ ''.csv''])) (\<lambda>boxes.
          let st2 = add_boxes boxes st1
          in Inr (st2\<lparr>image_id_counter := image_id_counter st2 + 1\<rparr>))))"

fun stems_loop ::
  "(string \<Rightarrow> 'f option) \<Rightarrow> (string \<Rightarrow> int option) \<Rightarrow> node \<Rightarrow> string \<Rightarrow> string
     \<Rightarrow> path \<Rightarrow> path \<Rightarrow> string list \<Rightarrow> 'f cstate \<Rightarrow> pyerr + ('f::{zero,ord,times}) cstate" where
  "stems_loop pfloat pint fs category_name subcategory_name images_dir annotations_dir [] st =
     Inr st"
| "stems_loop pfloat pint fs category_name subcategory_name images_dir annotations_dir
     (stem # stems) st =
     and_then
       (stem_step pfloat pint fs category_name subcategory_name images_dir annotations_dir stem st)
       (stems_loop pfloat pint fs category_name subcategory_name images_dir annotations_dir stems)"

text \<open>The set of stems that the four \<^verbatim>\<open>glob\<close> calls collect.\<close>

definition subcat_images :: "node \<Rightarrow> path \<Rightarrow> string set" where
  "subcat_images fs images_dir =
     set (map path_stem (glob fs images_dir ''.jpg''))
       \<union> set (map path_stem (glob fs images_dir ''.JPG''))
       \<union> set (map path_stem (glob fs images_dir ''.png''))
       \<union> set (map path_stem (glob fs images_dir ''.PNG''))"

text \<open>The body of the loop over the entries of the category root.\<close>

definition subcat_step ::
  "(string \<Rightarrow> 'f option) \<Rightarrow> (string \<Rightarrow> int option) \<Rightarrow> node \<Rightarrow> string \<Rightarrow> string set
     \<Rightarrow> path \<Rightarrow> 'f cstate \<Rightarrow> pyerr + ('f::{zero,ord,times}) cstate" where
  "subcat_step pfloat pint fs category_name image_stems subcat_dir st =
     (if \<not> is_dir fs subcat_dir \<or> last subcat_dir \<in> set [''sets''] then Inr st
      else
        let subcategory_name = last subcat_dir;
            images_dir = subcat_dir @ [''images''];
            annotations_dir = subcat_dir @ [''csv'']
        in
        if \<not> exists fs images_dir then Inr st
        else
          stems_loop pfloat pint fs category_name subcategory_name images_dir annotations_dir
            (sorted_list_of_set (image_stems \<inter> subcat_images fs images_dir)) st)"

fun subcats_loop ::
  "(string \<Rightarrow> 'f option) \<Rightarrow> (string \<Rightarrow> int option) \<Rightarrow> node \<Rightarrow> string \<Rightarrow> string set
     \<Rightarrow> path list \<Rightarrow> 'f cstate \<Rightarrow> pyerr + ('f::{zero,ord,times}) cstate" where
  "subcats_loop pfloat pint fs category_name image_stems [] st = Inr st"
| "subcats_loop pfloat pint fs category_name image_stems (subcat_dir # rest) st =
     and_then (subcat_step pfloat pint fs category_name image_stems subcat_dir st)
       (subcats_loop pfloat pint fs category_name image_stems rest)"

definition collect_annotations_for_category ::
  "(string \<Rightarrow> 'f option) \<Rightarrow> (string \<Rightarrow> int option) \<Rightarrow> node \<Rightarrow> path \<Rightarrow> string \<Rightarrow> string
     \<Rightarrow> pyerr + (image_rec list \<times> ('f::{zero,ord,times}) ann_rec list \<times> cat_rec list)" where
  "collect_annotations_for_category pfloat pint fs category_root split category_name =
     and_then (load_labelmap fs (category_root @ [''labelmap.json''])) (\<lambda>id_to_name.
     and_then (read_split_list fs (category_root @ [''sets'', split @ ''.txt''])) (\<lambda>split_list.
     let image_stems = set split_list;
         categories = make_categories category_name id_to_name
     in
     and_then (iterdir fs category_root) (\<lambda>entries.
     and_then
       (subcats_loop pfloat pint fs category_name image_stems entries
          \<lparr>images = [], anns = [], image_id_counter = 1, ann_id_counter = 1\<rparr>) (\<lambda>st.
     Inr (images st, anns st, categories)))))"

subsection \<open>Predicates used in the statements\<close>

text \<open>
  The box that a row is expected to give: the one built from the five values when all
  of them parse and both the width and the height are positive, none otherwise.
\<close>

definition spec_box ::
  "(string \<Rightarrow> 'f option) \<Rightarrow> (string \<Rightarrow> int option) \<Rightarrow> csv_row
     \<Rightarrow> ('f::{zero,ord,times}) box option" where
  "spec_box pfloat pint row =
     (case (get_float pfloat row ''x'', get_float pfloat row ''y'',
            get_float pfloat row ''width'', get_float pfloat row ''height'',
            get_int pint row ''label'') of
        (Inr x, Inr y, Inr w, Inr h, Inr l) \<Rightarrow>
          if 0 < w \<and> 0 < h
          then Some \<lparr>bbox = [x, y, w, h], area = w * h, category_id = l\<rparr>
          else None
      | _ \<Rightarrow> None)"

text \<open>
  The invariant of the two counters at the head of each loop iteration, and the one
  that holds between the append of an image and the increment of its counter.
\<close>

definition ids_ok :: "'f cstate \<Rightarrow> bool" where
  "ids_ok st \<longleftrightarrow>
     map img_id (images st) = [1..int (length (images st))]
   \<and> image_id_counter st = int (length (images st)) + 1
   \<and> map ann_id (anns st) = [1..int (length (anns st))]
   \<and> ann_id_counter st = int (length (anns st)) + 1
   \<and> list_all (\<lambda>a. 1 \<le> ann_image_id a \<and> ann_image_id a \<le> int (length (images st)))
        (anns st)"

definition mid_ok :: "'f cstate \<Rightarrow> bool" where
  "mid_ok st \<longleftrightarrow>
     map img_id (images st) = [1..int (length (images st))]
   \<and> image_id_counter st = int (length (images st))
   \<and> map ann_id (anns st) = [1..int (length (anns st))]
   \<and> ann_id_counter st = int (length (anns st)) + 1
   \<and> list_all (\<lambda>a. 1 \<le> ann_image_id a \<and> ann_image_id a \<le> int (length (images st)))
        (anns st)"

text \<open>
  Where an image record comes from: a stem of the split list that is also among the
  stems the four globs found in the subcategory's images directory, and the extension
  that the resolution loop stops at, under which the file exists.
\<close>

definition emitted_from :: "node \<Rightarrow> string \<Rightarrow> string set \<Rightarrow> path \<Rightarrow> image_rec \<Rightarrow> bool" where
  "emitted_from fs category_name image_stems subcat_dir im \<longleftrightarrow>
     (\<exists>stem ext. stem \<in> image_stems
        \<and> stem \<in> subcat_images fs (subcat_dir @ [''images''])
        \<and> ext \<in> set extensions
        \<and> exists fs (subcat_dir @ [''images'', stem @ ext])
        \<and> resolve_image fs (subcat_dir @ [''images'']) stem
            = Some (subcat_dir @ [''images'', stem @ ext])
        \<and> img_file_name im =
            category_name @ ''/'' @ last subcat_dir @ ''/images/'' @ stem @ ext)"

subsection \<open>Example inputs\<close>

text \<open>
  An instance of the two parameters for the examples: unsigned decimal digit strings
  are read as Python reads them, and the other strings of the examples (\<open>''q''\<close>)
  are not numbers. Floats are reals here; on the small integers of the examples the
  product and the order are those of IEEE doubles.
\<close>

definition digits_value :: "string \<Rightarrow> nat option" where
  "digits_value s =
     (if s \<noteq> [] \<and> list_all (\<lambda>c. CHR ''0'' \<le> c \<and> c \<le> CHR ''9'') s
      then Some (foldl (\<lambda>a c. 10 * a + (of_char c - 48)) 0 s)
      else None)"

definition example_float :: "string \<Rightarrow> real option" where
  "example_float s = map_option of_nat (digits_value s)"

definition example_int :: "string \<Rightarrow> int option" where
  "example_int s = map_option of_nat (digits_value s)"

definition image_file :: "nat \<Rightarrow> nat \<Rightarrow> node" where
  "image_file w h =
     File \<lparr>as_text = None, as_csv = None, as_json = None, as_image = Some (w, h)\<rparr>"

definition csv_file :: "string list list \<Rightarrow> node" where
  "csv_file recs =
     File \<lparr>as_text = None, as_csv = Some recs, as_json = None, as_image = None\<rparr>"

definition text_file :: "string \<Rightarrow> node" where
  "text_file s =
     File \<lparr>as_text = Some s, as_csv = None, as_json = None, as_image = None\<rparr>"

definition json_file :: "labelmap_item list \<Rightarrow> node" where
  "json_file items =
     File \<lparr>as_text = None, as_csv = None, as_json = Some items, as_image = None\<rparr>"

definition csv_header :: "string list" where
  "csv_header = [''x'', ''y'', ''width'', ''height'', ''label'']"

text \<open>The label map of the specification's example.\<close>

definition example_labelmap :: "labelmap_item list" where
  "example_labelmap =
     [\<lparr>label_id = Some 1, object_name = Some ''ripe''\<rparr>,
      \<lparr>label_id = Some 2, object_name = Some ''unripe''\<rparr>,
      \<lparr>label_id = Some 0, object_name = Some ''background''\<rparr>]"

text \<open>
  Two subcategories. In \<open>healthy\<close>, \<open>a\<close> and \<open>b\<close> are listed in the split and have
  a jpg and a png, \<open>z\<close> has a jpg and is not listed, \<open>c\<close> is listed and has only a
  bmp; the CSV of \<open>a\<close> has two good rows, one of width 0 and one whose \<open>x\<close> is not a
  number. In \<open>scorch\<close>, \<open>d\<close> is listed and has no CSV.
\<close>

definition healthy_dir :: node where
  "healthy_dir =
     Dir [(''images'', Dir [(''b.png'', image_file 4 3), (''a.jpg'', image_file 10 20),
                            (''z.jpg'', image_file 10 20), (''c.bmp'', image_file 8 8)]),
          (''csv'', Dir [(''a.csv'', csv_file [csv_header,
                            [''1'', ''2'', ''3'', ''4'', ''1''],
                            [''1'', ''2'', ''0'', ''4'', ''1''],
                            [''q'', ''2'', ''3'', ''4'', ''1''],
                            [''5'', ''6'', ''7'', ''8'', ''2'']])])]"

definition scorch_dir :: node where
  "scorch_dir = Dir [(''images'', Dir [(''d.JPG'', image_file 6 6)]), (''csv'', Dir [])]"

definition train_txt :: node where
  "train_txt =
     text_file (''a'' @ [CHR 0x0A] @ '' b '' @ [CHR 0x0D, CHR 0x0A, CHR 0x0A] @ ''c''
                  @ [CHR 0x0A] @ ''d'' @ [CHR 0x0A])"

definition example_fs :: node where
  "example_fs =
     Dir [(''labelmap.json'', json_file example_labelmap),
          (''sets'', Dir [(''train.txt'', train_txt)]),
          (''healthy'', healthy_dir),
          (''scorch'', scorch_dir)]"

text \<open>The same files, the two subcategories enumerated in the other order.\<close>

definition example_fs_swapped :: node where
  "example_fs_swapped =
     Dir [(''labelmap.json'', json_file example_labelmap),
          (''sets'', Dir [(''train.txt'', train_txt)]),
          (''scorch'', scorch_dir),
          (''healthy'', healthy_dir)]"

definition example_images :: "image_rec list" where
  "example_images =
     [\<lparr>img_id = 1, img_file_name = ''strawberries/healthy/images/a.jpg'',
       img_width = 10, img_height = 20\<rparr>,
      \<lparr>img_id = 2, img_file_name = ''strawberries/healthy/images/b.png'',
       img_width = 4, img_height = 3\<rparr>,
      \<lparr>img_id = 3, img_file_name = ''strawberries/scorch/images/d.JPG'',
       img_width = 6, img_height = 6\<rparr>]"

definition example_anns :: "real ann_rec list" where
  "example_anns =
     [\<lparr>ann_id = 1, ann_image_id = 1, ann_category_id = 1, ann_bbox = [1, 2, 3, 4],
       ann_area = 12, ann_iscrowd = 0\<rparr>,
      \<lparr>ann_id = 2, ann_image_id = 1, ann_category_id = 2, ann_bbox = [5, 6, 7, 8],
       ann_area = 56, ann_iscrowd = 0\<rparr>]"

definition example_categories :: "cat_rec list" where
  "example_categories =
     [\<lparr>cat_id = 1, cat_name = ''ripe'', cat_supercategory = ''strawberrie''\<rparr>,
      \<lparr>cat_id = 2, cat_name = ''unripe'', cat_supercategory = ''strawberrie''\<rparr>]"

text \<open>A CSV file whose second data row has three fields where the header has five.\<close>

definition short_row_fs :: node where
  "short_row_fs =
     Dir [(''a.csv'', csv_file [csv_header,
                         [''1'', ''2'', ''3'', ''4'', ''1''],
                         [''1'', ''2'', ''3''],
                         [''5'', ''6'', ''7'', ''8'', ''2'']])]"

text \<open>A CSV file whose only data row has a positive width and height and an \<open>x\<close>
  that is not a number.\<close>

definition bad_x_fs :: node where
  "bad_x_fs = Dir [(''a.csv'', csv_file [csv_header, [''q'', ''2'', ''3'', ''4'', ''1'']])]"

text \<open>Label maps with an entry that has no \<^verbatim>\<open>label_id\<close>: a background entry,
  and another one.\<close>

definition background_only_fs :: node where
  "background_only_fs =
     Dir [(''labelmap.json'',
           json_file [\<lparr>label_id = None, object_name = Some ''background''\<rparr>])]"

definition missing_id_fs :: node where
  "missing_id_fs =
     Dir [(''labelmap.json'',
           json_file [\<lparr>label_id = Some 1, object_name = Some ''ripe''\<rparr>,
                      \<lparr>label_id = None, object_name = Some ''unripe''\<rparr>])]"

text \<open>What the collector returns on the example tree enumerated in the other order.\<close>

definition example_images_swapped :: "image_rec list" where
  "example_images_swapped =
     [\<lparr>img_id = 1, img_file_name = ''strawberries/scorch/images/d.JPG'',
       img_width = 6, img_height = 6\<rparr>,
      \<lparr>img_id = 2, img_file_name = ''strawberries/healthy/images/a.jpg'',
       img_width = 10, img_height = 20\<rparr>,
      \<lparr>img_id = 3, img_file_name = ''strawberries/healthy/images/b.png'',
       img_width = 4, img_height = 3\<rparr>]"

definition example_anns_swapped :: "real ann_rec list" where
  "example_anns_swapped =
     [\<lparr>ann_id = 1, ann_image_id = 2, ann_category_id = 1, ann_bbox = [1, 2, 3, 4],
       ann_area = 12, ann_iscrowd = 0\<rparr>,
      \<lparr>ann_id = 2, ann_image_id = 2, ann_category_id = 2, ann_bbox = [5, 6, 7, 8],
       ann_area = 56, ann_iscrowd = 0\<rparr>]"

text \<open>A label-map file whose content is not valid JSON.\<close>

definition invalid_json_fs :: node where
  "invalid_json_fs = Dir [(''labelmap.json'', text_file ''{'')]"


section \<open>Lemmas\<close>

subsection \<open>Rows and boxes\<close>

lemma try_row_spec:
  "try_row pfloat pint row = Inr r \<Longrightarrow> spec_box pfloat pint row = r"
  by (auto simp: try_row_def spec_box_def and_then_def split: sum.splits if_splits)

lemma try_row_caught:
  "try_row pfloat pint row = Inl e \<Longrightarrow> spec_box pfloat pint row = None"
  by (auto simp: try_row_def spec_box_def and_then_def split: sum.splits if_splits)

lemma parse_rows_spec:
  "parse_rows pfloat pint rows acc = Inr boxes \<Longrightarrow>
   boxes = acc @ List.map_filter (spec_box pfloat pint) rows"
proof (induction rows arbitrary: acc)
  case Nil
  then show ?case by simp
next
  case (Cons row rows)
  show ?case
  proof (cases "try_row pfloat pint row")
    case (Inl e)
    with Cons.prems have "parse_rows pfloat pint rows acc = Inr boxes"
      by (simp split: if_splits)
    from Cons.IH[OF this] try_row_caught[OF Inl] show ?thesis
      by simp
  next
    case (Inr r)
    show ?thesis
    proof (cases r)
      case None
      with Inr Cons.prems have "parse_rows pfloat pint rows acc = Inr boxes" by simp
      from Cons.IH[OF this] try_row_spec[OF Inr] None show ?thesis
        by simp
    next
      case (Some b)
      with Inr Cons.prems have "parse_rows pfloat pint rows (acc @ [b]) = Inr boxes" by simp
      from Cons.IH[OF this] try_row_spec[OF Inr] Some show ?thesis
        by simp
    qed
  qed
qed

lemma spec_box_Some_iff:
  "spec_box pfloat pint row = Some b \<longleftrightarrow>
   (\<exists>x y w h l. get_float pfloat row ''x'' = Inr x \<and> get_float pfloat row ''y'' = Inr y
      \<and> get_float pfloat row ''width'' = Inr w \<and> get_float pfloat row ''height'' = Inr h
      \<and> get_int pint row ''label'' = Inr l \<and> 0 < w \<and> 0 < h
      \<and> b = \<lparr>bbox = [x, y, w, h], area = w * h, category_id = l\<rparr>)"
  by (auto simp: spec_box_def split: sum.splits)

text \<open>
  The only exception that leaves the loop over the rows is the TypeError of a cell that
  is \<^verbatim>\<open>None\<close>: when every row has all the cells the script reads, the loop returns.
\<close>

lemma get_float_error:
  "get_float pfloat row k = Inl e \<Longrightarrow> e = ValueError \<or> (e = TypeError \<and> row k = Some None)"
  by (auto simp: get_float_def split: option.splits)

lemma get_int_error:
  "get_int pint row k = Inl e \<Longrightarrow> e = ValueError \<or> (e = TypeError \<and> row k = Some None)"
  by (auto simp: get_int_def split: option.splits)

lemma try_row_error:
  assumes "try_row pfloat pint row = Inl e"
  shows "e = ValueError \<or> (e = TypeError \<and> (\<exists>k \<in> set csv_header. row k = Some None))"
proof -
  from assms consider
      "get_float pfloat row ''x'' = Inl e" | "get_float pfloat row ''y'' = Inl e"
    | "get_float pfloat row ''width'' = Inl e" | "get_float pfloat row ''height'' = Inl e"
    | "get_int pint row ''label'' = Inl e"
    by (auto simp: try_row_def and_then_def split: sum.splits if_splits)
  then show ?thesis
    by cases (auto dest: get_float_error get_int_error simp: csv_header_def)
qed

lemma parse_rows_returns:
  assumes "\<forall>row \<in> set rows. \<forall>k \<in> set csv_header. row k \<noteq> Some None"
  shows "\<exists>boxes. parse_rows pfloat pint rows acc = Inr boxes"
  using assms
proof (induction rows arbitrary: acc)
  case Nil
  then show ?case by simp
next
  case (Cons row rows)
  then have IH: "\<And>acc. \<exists>boxes. parse_rows pfloat pint rows acc = Inr boxes" by simp
  show ?case
  proof (cases "try_row pfloat pint row")
    case (Inl e)
    from try_row_error[OF this] Cons.prems have "e = ValueError" by auto
    with Inl IH[of acc] show ?thesis by simp
  next
    case (Inr r)
    with IH show ?thesis by (cases r) simp_all
  qed
qed

subsection \<open>The counters\<close>

lemma upto_snoc: "[1..int n] @ [int n + 1] = [1..1 + int n]"
  by (simp add: upto_rec2 add.commute)

lemma add_boxes_images [simp]: "images (add_boxes bs st) = images st"
  by (induction bs arbitrary: st) simp_all

lemma add_boxes_image_id_counter [simp]:
  "image_id_counter (add_boxes bs st) = image_id_counter st"
  by (induction bs arbitrary: st) simp_all

lemma add_boxes_mid_ok: "mid_ok st \<Longrightarrow> images st \<noteq> [] \<Longrightarrow> mid_ok (add_boxes bs st)"
proof (induction bs arbitrary: st)
  case Nil
  then show ?case by simp
next
  case (Cons b bs)
  let ?st = "st\<lparr>anns := anns st @
              [\<lparr>ann_id = ann_id_counter st, ann_image_id = image_id_counter st,
                ann_category_id = category_id b, ann_bbox = bbox b, ann_area = area b,
                ann_iscrowd = 0\<rparr>],
           ann_id_counter := ann_id_counter st + 1\<rparr>"
  from Cons.prems have "mid_ok ?st"
    by (auto simp: mid_ok_def upto_snoc Suc_le_eq)
  moreover from Cons.prems have "images ?st \<noteq> []" by simp
  ultimately show ?case using Cons.IH[of ?st] by simp
qed

lemma mid_ok_next:
  "mid_ok s \<Longrightarrow> ids_ok (s\<lparr>image_id_counter := image_id_counter s + 1\<rparr>)"
  by (simp add: mid_ok_def ids_ok_def)

lemma ids_ok_append_image:
  "ids_ok st \<Longrightarrow> img_id im = image_id_counter st \<Longrightarrow>
   mid_ok (st\<lparr>images := images st @ [im]\<rparr>)"
  by (auto simp: ids_ok_def mid_ok_def upto_snoc list_all_iff)

lemma stem_step_cases:
  assumes "stem_step pfloat pint fs cn sn idir adir stem st = Inr st'"
  obtains "resolve_image fs idir stem = None" "st' = st"
  | img_path wh boxes where "resolve_image fs idir stem = Some img_path"
      "st' = (add_boxes boxes (st\<lparr>images := images st @
                      [\<lparr>img_id = image_id_counter st,
                        img_file_name = cn @ ''/'' @ sn @ ''/images/'' @ last img_path,
                        img_width = fst wh, img_height = snd wh\<rparr>]\<rparr>))
                 \<lparr>image_id_counter := image_id_counter (add_boxes boxes (st\<lparr>images := images st @
                      [\<lparr>img_id = image_id_counter st,
                        img_file_name = cn @ ''/'' @ sn @ ''/images/'' @ last img_path,
                        img_width = fst wh, img_height = snd wh\<rparr>]\<rparr>)) + 1\<rparr>"
  using assms
  by (cases "resolve_image fs idir stem")
     (auto simp: stem_step_def and_then_def Let_def split: sum.splits)

lemma stem_step_ids_ok:
  assumes "stem_step pfloat pint fs cn sn idir adir stem st = Inr st'" and "ids_ok st"
  shows "ids_ok st'"
  using assms(1)
proof (cases rule: stem_step_cases)
  case 1
  with assms(2) show ?thesis by simp
next
  case (2 img_path wh boxes)
  show ?thesis unfolding 2(2)
    by (intro mid_ok_next add_boxes_mid_ok ids_ok_append_image assms(2)) simp_all
qed

lemma stems_loop_invariant:
  assumes "stems_loop pfloat pint fs cn sn idir adir stems st = Inr st'"
    and "P st"
    and "\<And>s a b. s \<in> set stems \<Longrightarrow> P a \<Longrightarrow>
           stem_step pfloat pint fs cn sn idir adir s a = Inr b \<Longrightarrow> P b"
  shows "P st'"
  using assms
proof (induction stems arbitrary: st)
  case Nil
  then show ?case by simp
next
  case (Cons s stems)
  from Cons.prems(1) obtain mid where
    step: "stem_step pfloat pint fs cn sn idir adir s st = Inr mid"
    and rest: "stems_loop pfloat pint fs cn sn idir adir stems mid = Inr st'"
    by (auto simp: and_then_def split: sum.splits)
  have "P mid" by (rule Cons.prems(3)[OF _ Cons.prems(2) step]) simp
  with rest Cons.prems(3) show ?case by (intro Cons.IH) auto
qed

lemma subcats_loop_invariant:
  assumes "subcats_loop pfloat pint fs cn image_stems dirs st = Inr st'"
    and "P st"
    and "\<And>d a b. d \<in> set dirs \<Longrightarrow> P a \<Longrightarrow>
           subcat_step pfloat pint fs cn image_stems d a = Inr b \<Longrightarrow> P b"
  shows "P st'"
  using assms
proof (induction dirs arbitrary: st)
  case Nil
  then show ?case by simp
next
  case (Cons d dirs)
  from Cons.prems(1) obtain mid where
    step: "subcat_step pfloat pint fs cn image_stems d st = Inr mid"
    and rest: "subcats_loop pfloat pint fs cn image_stems dirs mid = Inr st'"
    by (auto simp: and_then_def split: sum.splits)
  have "P mid" by (rule Cons.prems(3)[OF _ Cons.prems(2) step]) simp
  with rest Cons.prems(3) show ?case by (intro Cons.IH) auto
qed

lemma subcat_step_ids_ok:
  assumes "subcat_step pfloat pint fs cn image_stems d st = Inr st'" and "ids_ok st"
  shows "ids_ok st'"
proof (cases "\<not> is_dir fs d \<or> last d \<in> set [''sets''] \<or> \<not> exists fs (d @ [''images''])")
  case True
  with assms show ?thesis by (auto simp: subcat_step_def Let_def split: if_splits)
next
  case False
  with assms(1) have "stems_loop pfloat pint fs cn (last d) (d @ [''images'']) (d @ [''csv''])
      (sorted_list_of_set (image_stems \<inter> subcat_images fs (d @ [''images'']))) st = Inr st'"
    by (auto simp: subcat_step_def Let_def split: if_splits)
  from this assms(2) show ?thesis
    by (rule stems_loop_invariant) (rule stem_step_ids_ok)
qed

lemma collect_ids_ok:
  assumes "collect_annotations_for_category pfloat pint fs category_root split cn = Inr (imgs, as, cats)"
  shows "\<exists>st. ids_ok st \<and> images st = imgs \<and> anns st = as"
proof -
  from assms obtain image_stems entries st where
    loop: "subcats_loop pfloat pint fs cn image_stems entries
          \<lparr>images = [], anns = [], image_id_counter = 1, ann_id_counter = 1\<rparr> = Inr st"
    and out: "imgs = images st" "as = anns st"
    by (auto simp: collect_annotations_for_category_def and_then_def Let_def split: sum.splits)
  have "ids_ok (\<lparr>images = [], anns = [], image_id_counter = 1, ann_id_counter = 1\<rparr> :: 'a cstate)"
    by (simp add: ids_ok_def)
  with loop have "ids_ok st"
    by (rule subcats_loop_invariant) (rule subcat_step_ids_ok)
  with out show ?thesis by blast
qed

subsection \<open>Where image records come from\<close>

lemma find_Some_set: "find P xs = Some x \<Longrightarrow> x \<in> set xs \<and> P x"
  by (induction xs) (auto split: if_splits)

lemma resolve_image_Some:
  assumes "resolve_image fs images_dir stem = Some p"
  obtains ext where "ext \<in> set extensions" "p = images_dir @ [stem @ ext]" "exists fs p"
  using find_Some_set[OF assms[unfolded resolve_image_def]] by auto

lemma stem_step_emitted:
  assumes step: "stem_step pfloat pint fs cn (last d) (d @ [''images'']) adir stem st = Inr st'"
    and stem: "stem \<in> image_stems" "stem \<in> subcat_images fs (d @ [''images''])"
    and inv: "\<forall>im \<in> set (images st). \<exists>d \<in> D. emitted_from fs cn image_stems d im"
    and d: "d \<in> D"
  shows "\<forall>im \<in> set (images st'). \<exists>d \<in> D. emitted_from fs cn image_stems d im"
  using step
proof (cases rule: stem_step_cases)
  case 1
  with inv show ?thesis by simp
next
  case (2 img_path wh boxes)
  from 2(1) obtain ext where ext: "ext \<in> set extensions"
    "img_path = (d @ [''images'']) @ [stem @ ext]" "exists fs img_path"
    by (rule resolve_image_Some)
  let ?im = "\<lparr>img_id = image_id_counter st,
               img_file_name = cn @ ''/'' @ last d @ ''/images/'' @ last img_path,
               img_width = fst wh, img_height = snd wh\<rparr>"
  have em: "emitted_from fs cn image_stems d ?im"
    unfolding emitted_from_def using stem ext 2(1)
    by (intro exI[of _ stem] exI[of _ ext]) simp
  have new: "\<exists>d \<in> D. emitted_from fs cn image_stems d ?im"
    using em d by blast
  have imgs: "images st' = images st @ [?im]"
    by (simp add: 2(2))
  show ?thesis
    unfolding imgs using inv new by simp
qed

lemma finite_subcat_images: "finite (subcat_images fs p)"
  by (simp add: subcat_images_def)

lemma subcat_step_emitted:
  assumes step: "subcat_step pfloat pint fs cn image_stems d st = Inr st'"
    and inv: "\<forall>im \<in> set (images st). \<exists>d \<in> D. emitted_from fs cn image_stems d im"
    and d: "d \<in> D"
  shows "\<forall>im \<in> set (images st'). \<exists>d \<in> D. emitted_from fs cn image_stems d im"
proof (cases "\<not> is_dir fs d \<or> last d \<in> set [''sets''] \<or> \<not> exists fs (d @ [''images''])")
  case True
  with step inv show ?thesis by (auto simp: subcat_step_def Let_def split: if_splits)
next
  case False
  with step have loop: "stems_loop pfloat pint fs cn (last d) (d @ [''images'']) (d @ [''csv''])
      (sorted_list_of_set (image_stems \<inter> subcat_images fs (d @ [''images'']))) st = Inr st'"
    by (auto simp: subcat_step_def Let_def split: if_splits)
  have fin: "finite (image_stems \<inter> subcat_images fs (d @ [''images'']))"
    by (simp add: finite_subcat_images)
  from loop inv show ?thesis
  proof (rule stems_loop_invariant)
    fix s a b
    assume "s \<in> set (sorted_list_of_set (image_stems \<inter> subcat_images fs (d @ [''images''])))"
    with fin have s: "s \<in> image_stems" "s \<in> subcat_images fs (d @ [''images''])" by simp_all
    assume a: "\<forall>im \<in> set (images a). \<exists>d \<in> D. emitted_from fs cn image_stems d im"
      and st: "stem_step pfloat pint fs cn (last d) (d @ [''images'']) (d @ [''csv'']) s a = Inr b"
    show "\<forall>im \<in> set (images b). \<exists>d \<in> D. emitted_from fs cn image_stems d im"
      by (rule stem_step_emitted[OF st s a d])
  qed
qed

lemma collect_emitted:
  assumes "collect_annotations_for_category pfloat pint fs category_root split cn = Inr (imgs, as, cats)"
  obtains split_list entries where
    "read_split_list fs (category_root @ [''sets'', split @ ''.txt'']) = Inr split_list"
    "iterdir fs category_root = Inr entries"
    "\<forall>im \<in> set imgs. \<exists>d \<in> set entries. emitted_from fs cn (set split_list) d im"
proof -
  from assms obtain split_list entries st where
    sl: "read_split_list fs (category_root @ [''sets'', split @ ''.txt'']) = Inr split_list"
    and en: "iterdir fs category_root = Inr entries"
    and loop: "subcats_loop pfloat pint fs cn (set split_list) entries
          \<lparr>images = [], anns = [], image_id_counter = 1, ann_id_counter = 1\<rparr> = Inr st"
    and out: "imgs = images st"
    by (auto simp: collect_annotations_for_category_def and_then_def Let_def split: sum.splits)
  have "\<forall>im \<in> set (images st). \<exists>d \<in> set entries. emitted_from fs cn (set split_list) d im"
  proof (rule subcats_loop_invariant[OF loop])
    show "\<forall>im \<in> set (images (\<lparr>images = [], anns = [], image_id_counter = 1,
        ann_id_counter = 1\<rparr> :: 'a cstate)). \<exists>d \<in> set entries. emitted_from fs cn (set split_list) d im"
      by simp
  next
    fix d a b
    assume d: "d \<in> set entries"
      and a: "\<forall>im \<in> set (images a). \<exists>d \<in> set entries. emitted_from fs cn (set split_list) d im"
      and st: "subcat_step pfloat pint fs cn (set split_list) d a = Inr (b :: 'a cstate)"
    show "\<forall>im \<in> set (images b). \<exists>d \<in> set entries. emitted_from fs cn (set split_list) d im"
      by (rule subcat_step_emitted[OF st a d])
  qed
  then show ?thesis unfolding out[symmetric] by (rule that[OF sl en])
qed

lemma path_stem_ext:
  assumes "stem \<noteq> []" and "ext \<in> set extensions"
  shows "path_stem [stem @ ext] = stem"
proof -
  from assms(2) obtain a b c where ext: "ext = [CHR ''.'', a, b, c]" "a \<noteq> CHR ''.''" "b \<noteq> CHR ''.''" "c \<noteq> CHR ''.''"
    by (auto simp: extensions_def)
  then have "rfind_dot (stem @ ext) = Some (length stem)"
    by (simp add: rfind_dot_def)
  with assms(1) ext show ?thesis by (simp add: path_stem_def)
qed

lemma read_split_list_nonblank:
  "read_split_list fs p = Inr xs \<Longrightarrow> [] \<notin> set xs"
  by (auto simp: read_split_list_def split: if_splits sum.splits)








subsection \<open>The label map and the categories\<close>

lemma labelmap_loop_error:
  "labelmap_loop items acc = Inl e \<Longrightarrow> e = KeyError"
  by (induction items arbitrary: acc) (auto split: option.splits if_splits)

lemma labelmap_loop_fails_iff:
  "(\<exists>e. labelmap_loop items acc = Inl e) \<longleftrightarrow>
   (\<exists>item \<in> set items. object_name item = None
       \<or> (object_name item \<noteq> Some ''background'' \<and> label_id item = None))"
  by (induction items arbitrary: acc) (auto split: option.splits)

lemma update_entry:
  "(i, n) \<in> set (AList.update k v al) \<Longrightarrow> (i, n) = (k, v) \<or> (i, n) \<in> set al"
  by (induction al) (auto split: if_splits)

lemma labelmap_loop_keys:
  "labelmap_loop items acc = Inr m \<Longrightarrow>
   fst ` set m = fst ` set acc \<union>
     {i. \<exists>item \<in> set items. object_name item \<noteq> Some ''background'' \<and> label_id item = Some i}"
proof (induction items arbitrary: acc)
  case Nil
  then show ?case by simp
next
  case (Cons item items)
  show ?case
  proof (cases "object_name item = Some ''background''")
    case True
    with Cons.prems have "labelmap_loop items acc = Inr m" by simp
    from Cons.IH[OF this] True show ?thesis by auto
  next
    case False
    with Cons.prems obtain nm i where it: "object_name item = Some nm" "label_id item = Some i"
      and rest: "labelmap_loop items (AList.update i nm acc) = Inr m"
      by (auto split: option.splits if_splits)
    from Cons.IH[OF rest] it False show ?thesis
      by (auto simp: dom_update)
  qed
qed

lemma labelmap_loop_distinct:
  "labelmap_loop items acc = Inr m \<Longrightarrow> distinct (map fst acc) \<Longrightarrow> distinct (map fst m)"
  by (induction items arbitrary: acc)
     (auto split: option.splits if_splits simp: distinct_update)

lemma labelmap_loop_entries:
  "labelmap_loop items acc = Inr m \<Longrightarrow> (i, n) \<in> set m \<Longrightarrow>
   (i, n) \<in> set acc \<or>
   (\<exists>item \<in> set items. label_id item = Some i \<and> object_name item = Some n
       \<and> n \<noteq> ''background'')"
proof (induction items arbitrary: acc)
  case Nil
  then show ?case by simp
next
  case (Cons item items)
  show ?case
  proof (cases "object_name item = Some ''background''")
    case True
    with Cons.prems have "labelmap_loop items acc = Inr m" by simp
    from Cons.IH[OF this Cons.prems(2)] show ?thesis by auto
  next
    case False
    with Cons.prems obtain nm k where it: "object_name item = Some nm" "label_id item = Some k"
      and rest: "labelmap_loop items (AList.update k nm acc) = Inr m"
      by (auto split: option.splits if_splits)
    from Cons.IH[OF rest Cons.prems(2)] show ?thesis
    proof
      assume "(i, n) \<in> set (AList.update k nm acc)"
      from update_entry[OF this] it False show ?thesis by auto
    next
      assume "\<exists>item \<in> set items. label_id item = Some i \<and> object_name item = Some n
          \<and> n \<noteq> ''background''"
      then show ?thesis by auto
    qed
  qed
qed

lemma sorted_fst_sort: "sorted (map fst (sort (m :: (int \<times> string) list)))"
proof -
  have "sorted_wrt (\<le>) (sort m)" by simp
  then have "sorted_wrt (\<lambda>x y. fst x \<le> fst y) (sort m)"
    by (rule sorted_wrt_mono_rel[rotated]) (auto simp: less_eq_prod_def)
  then show ?thesis by (simp add: sorted_map)
qed

lemma strict_sorted_fst_sort:
  assumes "distinct (map fst (m :: (int \<times> string) list))"
  shows "sorted_wrt (<) (map fst (sort m))"
proof -
  from assms have "distinct m" "inj_on fst (set m)" by (simp_all add: distinct_map)
  then have "distinct (map fst (sort m))" by (simp add: distinct_map)
  with sorted_fst_sort[of m] show ?thesis by (simp add: strict_sorted_iff)
qed

lemma collect_categories:
  assumes "collect_annotations_for_category pfloat pint fs category_root split cn = Inr (imgs, as, cats)"
  obtains id_to_name where "load_labelmap fs (category_root @ [''labelmap.json'']) = Inr id_to_name"
    "cats = make_categories cn id_to_name"
  using assms
  by (auto simp: collect_annotations_for_category_def and_then_def Let_def split: sum.splits)

section \<open>The claims\<close>

lemma in_set_map_filter:
  "b \<in> set (List.map_filter f xs) \<longleftrightarrow> (\<exists>x \<in> set xs. f x = Some b)"
  by (induction xs) (auto split: option.splits)

lemma example_collect:
  "collect_annotations_for_category example_float example_int example_fs [] ''train''
     ''strawberries'' = Inr (example_images, example_anns, example_categories)"
  by code_simp

text \<open>
  C1. Whenever the collector returns a document, every annotation's \<open>image_id\<close> is the
  id of exactly one record of the document's images list: the images whose id equals it
  number exactly one.
\<close>

theorem annotations_reference_one_image:
  assumes "collect_annotations_for_category pfloat pint fs category_root split category_name
             = Inr (imgs, as, cats)"
  shows "\<forall>a \<in> set as. length (filter (\<lambda>im. img_id im = ann_image_id a) imgs) = 1"
proof
  fix a assume a: "a \<in> set as"
  from collect_ids_ok[OF assms] obtain st where st: "ids_ok st" "images st = imgs" "anns st = as"
    by blast
  let ?k = "ann_image_id a"
  let ?n = "int (length imgs)"
  from st a have k: "1 \<le> ?k" "?k \<le> ?n" and ids: "map img_id imgs = [1..?n]"
    by (auto simp: ids_ok_def list_all_iff)
  have "length (filter (\<lambda>im. img_id im = ?k) imgs)
      = length (filter (\<lambda>x. x = ?k) (map img_id imgs))"
    by (simp add: filter_map comp_def)
  also have "\<dots> = card ({x. x = ?k} \<inter> set [1..?n])"
    unfolding ids by (rule distinct_length_filter) simp
  also from k have "{x. x = ?k} \<inter> set [1..?n] = {?k}" by auto
  finally show "length (filter (\<lambda>im. img_id im = ?k) imgs) = 1" by simp
qed

theorem annotations_reference_one_image_witness:
  "collect_annotations_for_category example_float example_int example_fs [] ''train''
     ''strawberries'' = Inr (example_images, example_anns, example_categories)
   \<and> length (filter (\<lambda>im. img_id im = ann_image_id (hd example_anns)) example_images) = 1"
proof -
  have "hd example_anns \<in> set example_anns" by (simp add: example_anns_def)
  with annotations_reference_one_image[OF example_collect] example_collect
  show ?thesis by blast
qed

text \<open>
  C2. Whenever the collector returns a document, the image ids are 1, 2, ..., in list
  order up to the number of images, and the annotation ids are 1, 2, ..., up to the
  number of annotations: unique, ascending and without a gap, whatever was skipped.
\<close>

theorem ids_contiguous_from_one:
  assumes "collect_annotations_for_category pfloat pint fs category_root split category_name
             = Inr (imgs, as, cats)"
  shows "map img_id imgs = [1..int (length imgs)] \<and> map ann_id as = [1..int (length as)]"
  using collect_ids_ok[OF assms] by (auto simp: ids_ok_def)

theorem ids_contiguous_from_one_witness:
  "collect_annotations_for_category example_float example_int example_fs [] ''train''
     ''strawberries'' = Inr (example_images, example_anns, example_categories)
   \<and> map img_id example_images = [1, 2, 3] \<and> map ann_id example_anns = [1, 2]"
proof -
  have "[1..int (length example_images)] = [1, 2, 3]"
    by (simp add: example_images_def upto_rec1)
  moreover have "[1..int (length example_anns)] = [1, 2]"
    by (simp add: example_anns_def upto_rec1)
  ultimately show ?thesis
    using ids_contiguous_from_one[OF example_collect] example_collect by simp
qed

text \<open>
  C4, as amended. When \<open>parse_csv_boxes\<close> returns on an existing CSV file, the boxes are,
  in row order, those of the data rows for which all of \<open>x\<close>, \<open>y\<close>, \<open>width\<close>,
  \<open>height\<close> and \<open>label\<close> parse and the width and the height are positive; such a row
  gives \<open>bbox = [x, y, width, height]\<close>, \<open>area = width * height\<close> and
  \<open>category_id = label\<close>, and no other row gives a box.
\<close>

theorem parse_csv_boxes_emits:
  assumes "parse_csv_boxes pfloat pint fs csv_path = Inr boxes"
    and "open_csv fs csv_path = Inr recs"
  shows "boxes = List.map_filter (spec_box pfloat pint) (DictReader recs)
    \<and> (\<forall>b. b \<in> set boxes \<longleftrightarrow>
          (\<exists>row \<in> set (DictReader recs). \<exists>x y w h l.
             get_float pfloat row ''x'' = Inr x \<and> get_float pfloat row ''y'' = Inr y
           \<and> get_float pfloat row ''width'' = Inr w \<and> get_float pfloat row ''height'' = Inr h
           \<and> get_int pint row ''label'' = Inr l \<and> 0 < w \<and> 0 < h
           \<and> b = \<lparr>bbox = [x, y, w, h], area = w * h, category_id = l\<rparr>))"
proof -
  from assms(2) have ex: "exists fs csv_path"
    by (auto simp: open_csv_def exists_def split: option.splits)
  with assms have "parse_rows pfloat pint (DictReader recs) [] = Inr boxes"
    by (simp add: parse_csv_boxes_def)
  from parse_rows_spec[OF this]
  have eq: "boxes = List.map_filter (spec_box pfloat pint) (DictReader recs)" by simp
  have "\<And>b. b \<in> set boxes \<longleftrightarrow> (\<exists>row \<in> set (DictReader recs). spec_box pfloat pint row = Some b)"
    unfolding eq by (rule in_set_map_filter)
  with eq show ?thesis by (simp add: spec_box_Some_iff)
qed

theorem parse_csv_boxes_emits_witness:
  "parse_csv_boxes example_float example_int example_fs [''healthy'', ''csv'', ''a.csv'']
     = Inr [\<lparr>bbox = [1, 2, 3, 4], area = 12, category_id = 1\<rparr>,
            \<lparr>bbox = [5, 6, 7, 8], area = 56, category_id = 2\<rparr>]
   \<and> open_csv example_fs [''healthy'', ''csv'', ''a.csv'']
     = Inr [csv_header, [''1'', ''2'', ''3'', ''4'', ''1''], [''1'', ''2'', ''0'', ''4'', ''1''],
            [''q'', ''2'', ''3'', ''4'', ''1''], [''5'', ''6'', ''7'', ''8'', ''2'']]
   \<and> List.map_filter (spec_box example_float example_int)
        (DictReader [csv_header, [''1'', ''2'', ''3'', ''4'', ''1''],
            [''1'', ''2'', ''0'', ''4'', ''1''], [''q'', ''2'', ''3'', ''4'', ''1''],
            [''5'', ''6'', ''7'', ''8'', ''2'']])
     = [\<lparr>bbox = [1, 2, 3, 4], area = 12, category_id = 1\<rparr>,
        \<lparr>bbox = [5, 6, 7, 8], area = 56, category_id = 2\<rparr>]"
proof -
  have p: "parse_csv_boxes example_float example_int example_fs [''healthy'', ''csv'', ''a.csv'']
     = Inr [\<lparr>bbox = [1, 2, 3, 4], area = 12, category_id = 1\<rparr>,
            \<lparr>bbox = [5, 6, 7, 8], area = 56, category_id = 2\<rparr>]"
    by code_simp
  have q: "open_csv example_fs [''healthy'', ''csv'', ''a.csv'']
     = Inr [csv_header, [''1'', ''2'', ''3'', ''4'', ''1''], [''1'', ''2'', ''0'', ''4'', ''1''],
            [''q'', ''2'', ''3'', ''4'', ''1''], [''5'', ''6'', ''7'', ''8'', ''2'']]"
    by code_simp
  from parse_csv_boxes_emits[OF p q] p q show ?thesis by simp
qed

text \<open>
  C4 as stated fails: in this file the only data row has width 3 and height 4, both
  parsed and positive, and no box is returned, because its \<open>x\<close> is not a number.
\<close>

theorem parse_csv_boxes_positive_size_counterexample:
  "parse_csv_boxes example_float example_int bad_x_fs [''a.csv''] = Inr []
   \<and> get_float example_float (dict_row csv_header [''q'', ''2'', ''3'', ''4'', ''1'']) ''width''
       = Inr 3
   \<and> get_float example_float (dict_row csv_header [''q'', ''2'', ''3'', ''4'', ''1'']) ''height''
       = Inr 4
   \<and> (0 :: real) < 3 \<and> (0 :: real) < 4"
  by code_simp

text \<open>
  C5. The claim is that no malformed row aborts the file. A row with fewer fields than
  the header does: the reader binds the missing fields to \<^verbatim>\<open>None\<close>,
  \<^verbatim>\<open>float(None)\<close> raises TypeError, and the handler catches ValueError and
  KeyError only. Here the first and the third data row are well formed and the second
  has three fields; the call raises instead of returning two boxes. (Rows that have
  all their cells never abort the file: \<open>parse_rows_returns\<close>.)
\<close>

theorem parse_csv_boxes_short_row_aborts:
  "parse_csv_boxes example_float example_int short_row_fs [''a.csv''] = Inl TypeError"
  by code_simp

text \<open>
  C6. A split file, a label-map file and a per-image CSV file that do not exist are
  read as empty: each of the three readers returns its empty value and raises nothing.
\<close>

theorem missing_files_are_empty:
  assumes "\<not> exists fs p"
  shows "read_split_list fs p = Inr [] \<and> load_labelmap fs p = Inr []
    \<and> parse_csv_boxes pfloat pint fs p = Inr []"
  using assms by (simp add: read_split_list_def load_labelmap_def parse_csv_boxes_def)

theorem missing_files_are_empty_witness:
  "\<not> exists example_fs [''scorch'', ''csv'', ''d.csv'']
   \<and> read_split_list example_fs [''scorch'', ''csv'', ''d.csv''] = Inr []
   \<and> load_labelmap example_fs [''scorch'', ''csv'', ''d.csv''] = Inr []
   \<and> parse_csv_boxes example_float example_int example_fs [''scorch'', ''csv'', ''d.csv'']
       = Inr []"
proof -
  have h: "\<not> exists example_fs [''scorch'', ''csv'', ''d.csv'']" by code_simp
  from missing_files_are_empty[OF h] h show ?thesis by simp
qed


text \<open>
  C7, as amended. Whenever the collector returns and the label map is read, the
  categories have strictly ascending ids, their ids are exactly the \<open>label_id\<close>s of the
  entries whose \<open>object_name\<close> is not \<open>background\<close>, each category has the id and the
  name of such an entry, and its supercategory is the category name without its last
  character when that is an \<open>s\<close>, the category name otherwise. For the three-entry
  example and the category name \<open>strawberries\<close> the list is the two entries with ids 1
  and 2, each with supercategory \<open>strawberrie\<close>.
\<close>

theorem categories_from_labelmap:
  assumes "collect_annotations_for_category pfloat pint fs category_root split category_name
             = Inr (imgs, as, cats)"
    and "json_load fs (category_root @ [''labelmap.json'']) = Inr labelmap"
  shows "sorted_wrt (<) (map cat_id cats)
    \<and> set (map cat_id cats) =
        {i. \<exists>item \<in> set labelmap. object_name item \<noteq> Some ''background'' \<and> label_id item = Some i}
    \<and> (\<forall>c \<in> set cats.
          (\<exists>item \<in> set labelmap. label_id item = Some (cat_id c)
              \<and> object_name item = Some (cat_name c) \<and> cat_name c \<noteq> ''background'')
          \<and> cat_supercategory c =
              (if ends_with ''s'' category_name then butlast category_name else category_name))
    \<and> (labelmap = example_labelmap \<and> category_name = ''strawberries''
          \<longrightarrow> cats = example_categories)"
proof -
  from assms(1) obtain m where lm: "load_labelmap fs (category_root @ [''labelmap.json'']) = Inr m"
    and cats: "cats = make_categories category_name m"
    by (rule collect_categories)
  from assms(2) have "exists fs (category_root @ [''labelmap.json''])"
    by (auto simp: json_load_def exists_def split: option.splits)
  with lm assms(2) have loop: "labelmap_loop labelmap [] = Inr m"
    by (simp add: load_labelmap_def)
  have ids: "map cat_id cats = map fst (sort m)"
    by (simp add: cats make_categories_def comp_def)
  from labelmap_loop_distinct[OF loop] have "distinct (map fst m)" by simp
  then have 1: "sorted_wrt (<) (map cat_id cats)"
    unfolding ids by (rule strict_sorted_fst_sort)
  have 2: "set (map cat_id cats) =
        {i. \<exists>item \<in> set labelmap. object_name item \<noteq> Some ''background'' \<and> label_id item = Some i}"
    unfolding ids using labelmap_loop_keys[OF loop] by simp
  have 3: "\<forall>c \<in> set cats.
          (\<exists>item \<in> set labelmap. label_id item = Some (cat_id c)
              \<and> object_name item = Some (cat_name c) \<and> cat_name c \<noteq> ''background'')
          \<and> cat_supercategory c =
              (if ends_with ''s'' category_name then butlast category_name else category_name)"
  proof
    fix c assume "c \<in> set cats"
    then obtain i n where "(i, n) \<in> set m" and c: "cat_id c = i" "cat_name c = n"
      "cat_supercategory c = supercategory category_name"
      by (auto simp: cats make_categories_def)
    from labelmap_loop_entries[OF loop this(1)] c
    show "(\<exists>item \<in> set labelmap. label_id item = Some (cat_id c)
              \<and> object_name item = Some (cat_name c) \<and> cat_name c \<noteq> ''background'')
          \<and> cat_supercategory c =
              (if ends_with ''s'' category_name then butlast category_name else category_name)"
      by (simp add: supercategory_def)
  qed
  have 4: "labelmap = example_labelmap \<and> category_name = ''strawberries''
          \<longrightarrow> cats = example_categories"
  proof
    assume ex: "labelmap = example_labelmap \<and> category_name = ''strawberries''"
    have "labelmap_loop example_labelmap [] = Inr [(1, ''ripe''), (2, ''unripe'')]"
      by code_simp
    with loop ex have "m = [(1, ''ripe''), (2, ''unripe'')]" by simp
    moreover have "make_categories ''strawberries'' [(1, ''ripe''), (2, ''unripe'')]
        = example_categories"
      by code_simp
    ultimately show "cats = example_categories" using cats ex by simp
  qed
  from 1 2 3 4 show ?thesis by blast
qed

theorem categories_from_labelmap_witness:
  "collect_annotations_for_category example_float example_int example_fs [] ''train''
     ''strawberries'' = Inr (example_images, example_anns, example_categories)
   \<and> json_load example_fs ([] @ [''labelmap.json'']) = Inr example_labelmap
   \<and> sorted_wrt (<) (map cat_id example_categories)
   \<and> set (map cat_id example_categories) =
        {i. \<exists>item \<in> set example_labelmap.
              object_name item \<noteq> Some ''background'' \<and> label_id item = Some i}"
proof -
  have j: "json_load example_fs ([] @ [''labelmap.json'']) = Inr example_labelmap"
    by code_simp
  from categories_from_labelmap[OF example_collect j] example_collect j
  show ?thesis by blast
qed

text \<open>
  C7 as stated fails on its example: for the category name \<open>strawberries\<close> the
  supercategory is \<open>strawberrie\<close> (one character stripped), not \<open>strawberr\<close>.
\<close>

theorem supercategory_counterexample:
  "collect_annotations_for_category example_float example_int example_fs [] ''train''
     ''strawberries'' = Inr (example_images, example_anns, example_categories)
   \<and> json_load example_fs [''labelmap.json''] = Inr example_labelmap
   \<and> map cat_supercategory example_categories = [''strawberrie'', ''strawberrie'']
   \<and> ''strawberrie'' \<noteq> ''strawberr''"
  by code_simp

text \<open>
  C9, as amended. For a label-map path that is a regular file: when the content is not
  valid JSON, \<open>load_labelmap\<close> raises the decoder's own JSONDecodeError; when some
  entry has no \<open>object_name\<close>, or some entry whose \<open>object_name\<close> is not
  \<open>background\<close> has no \<open>label_id\<close>, it raises the KeyError of the failed lookup;
  in both cases the exception leaves the function as it was raised and no mapping,
  empty or partial, is returned. In every other case it returns a mapping: a
  \<open>background\<close> entry without \<open>label_id\<close> raises nothing.
\<close>

theorem load_labelmap_propagates:
  assumes "lookup fs labelmap_path = Some (File d)"
  shows "(case as_json d of
            None \<Rightarrow> load_labelmap fs labelmap_path = Inl JSONDecodeError
          | Some labelmap \<Rightarrow>
              if \<exists>item \<in> set labelmap. object_name item = None
                   \<or> (object_name item \<noteq> Some ''background'' \<and> label_id item = None)
              then load_labelmap fs labelmap_path = Inl KeyError
              else \<exists>id_to_name. load_labelmap fs labelmap_path = Inr id_to_name)"
proof (cases "as_json d")
  case None
  with assms show ?thesis by (simp add: load_labelmap_def exists_def json_load_def)
next
  case (Some labelmap)
  with assms have eq: "load_labelmap fs labelmap_path = labelmap_loop labelmap []"
    by (simp add: load_labelmap_def exists_def json_load_def)
  show ?thesis
  proof (cases "\<exists>item \<in> set labelmap. object_name item = None
                   \<or> (object_name item \<noteq> Some ''background'' \<and> label_id item = None)")
    case True
    with labelmap_loop_fails_iff[of labelmap "[]"] obtain e where
      e: "labelmap_loop labelmap [] = Inl e" by blast
    from labelmap_loop_error[OF e] e have "labelmap_loop labelmap [] = Inl KeyError" by simp
    with True Some eq show ?thesis by simp
  next
    case False
    with labelmap_loop_fails_iff[of labelmap "[]"]
    have "\<not> (\<exists>e. labelmap_loop labelmap [] = Inl e)" by simp
    then obtain m where "labelmap_loop labelmap [] = Inr m"
      by (cases "labelmap_loop labelmap []") auto
    with False Some eq show ?thesis by simp
  qed
qed

theorem load_labelmap_propagates_witness:
  "lookup missing_id_fs [''labelmap.json'']
     = Some (File \<lparr>as_text = None, as_csv = None,
                    as_json = Some [\<lparr>label_id = Some 1, object_name = Some ''ripe''\<rparr>,
                                    \<lparr>label_id = None, object_name = Some ''unripe''\<rparr>],
                    as_image = None\<rparr>)
   \<and> load_labelmap missing_id_fs [''labelmap.json''] = Inl KeyError
   \<and> lookup invalid_json_fs [''labelmap.json'']
     = Some (File \<lparr>as_text = Some ''{'', as_csv = None, as_json = None, as_image = None\<rparr>)
   \<and> load_labelmap invalid_json_fs [''labelmap.json''] = Inl JSONDecodeError"
proof -
  have h: "lookup missing_id_fs [''labelmap.json'']
     = Some (File \<lparr>as_text = None, as_csv = None,
                    as_json = Some [\<lparr>label_id = Some 1, object_name = Some ''ripe''\<rparr>,
                                    \<lparr>label_id = None, object_name = Some ''unripe''\<rparr>],
                    as_image = None\<rparr>)"
    by code_simp
  have k: "lookup invalid_json_fs [''labelmap.json'']
     = Some (File \<lparr>as_text = Some ''{'', as_csv = None, as_json = None, as_image = None\<rparr>)"
    by code_simp
  from load_labelmap_propagates[OF h] have 1:
    "load_labelmap missing_id_fs [''labelmap.json''] = Inl KeyError" by simp
  from load_labelmap_propagates[OF k] have 2:
    "load_labelmap invalid_json_fs [''labelmap.json''] = Inl JSONDecodeError" by simp
  from h k 1 2 show ?thesis by simp
qed

text \<open>
  C9 as stated fails: a background entry without \<open>label_id\<close> is passed over, and the
  call returns the empty mapping.
\<close>

theorem background_without_id_counterexample:
  "json_load background_only_fs [''labelmap.json'']
     = Inr [\<lparr>label_id = None, object_name = Some ''background''\<rparr>]
   \<and> load_labelmap background_only_fs [''labelmap.json''] = Inr []"
  by code_simp

text \<open>
  C8. Whenever the collector returns, every image record was built from a stem of the
  split list: its file name is \<open>category/subcategory/images/stem + ext\<close> for a stem
  that the split file lists and an extension of the resolution order, and that stem is
  the base name of the file. A base name that the split file does not list is emitted
  nowhere, whatever files exist.
\<close>

theorem emitted_images_in_split:
  assumes "collect_annotations_for_category pfloat pint fs category_root split category_name
             = Inr (imgs, as, cats)"
  shows "\<exists>split_list.
           read_split_list fs (category_root @ [''sets'', split @ ''.txt'']) = Inr split_list
         \<and> (\<forall>im \<in> set imgs. \<exists>subcategory_name stem ext.
               stem \<in> set split_list \<and> ext \<in> set extensions
             \<and> path_stem [stem @ ext] = stem
             \<and> img_file_name im =
                 category_name @ ''/'' @ subcategory_name @ ''/images/'' @ stem @ ext)"
proof -
  from assms obtain split_list entries where
    sl: "read_split_list fs (category_root @ [''sets'', split @ ''.txt'']) = Inr split_list"
    and em: "\<forall>im \<in> set imgs. \<exists>d \<in> set entries.
               emitted_from fs category_name (set split_list) d im"
    by (rule collect_emitted)
  have "\<forall>im \<in> set imgs. \<exists>subcategory_name stem ext.
               stem \<in> set split_list \<and> ext \<in> set extensions
             \<and> path_stem [stem @ ext] = stem
             \<and> img_file_name im =
                 category_name @ ''/'' @ subcategory_name @ ''/images/'' @ stem @ ext"
  proof
    fix im assume "im \<in> set imgs"
    with em obtain d stem ext where stem: "stem \<in> set split_list"
      and ext: "ext \<in> set extensions"
      and name: "img_file_name im = category_name @ ''/'' @ last d @ ''/images/'' @ stem @ ext"
      unfolding emitted_from_def by blast
    from read_split_list_nonblank[OF sl] stem have "stem \<noteq> []" by auto
    then have "path_stem [stem @ ext] = stem" using ext by (rule path_stem_ext)
    with stem ext name
    show "\<exists>subcategory_name stem ext.
               stem \<in> set split_list \<and> ext \<in> set extensions
             \<and> path_stem [stem @ ext] = stem
             \<and> img_file_name im =
                 category_name @ ''/'' @ subcategory_name @ ''/images/'' @ stem @ ext"
      by blast
  qed
  with sl show ?thesis by blast
qed

theorem emitted_images_in_split_witness:
  "collect_annotations_for_category example_float example_int example_fs [] ''train''
     ''strawberries'' = Inr (example_images, example_anns, example_categories)
   \<and> (\<exists>split_list.
         read_split_list example_fs ([] @ [''sets'', ''train'' @ ''.txt'']) = Inr split_list
       \<and> (\<exists>subcategory_name stem ext.
               stem \<in> set split_list \<and> ext \<in> set extensions
             \<and> path_stem [stem @ ext] = stem
             \<and> img_file_name (hd example_images) =
                 ''strawberries'' @ ''/'' @ subcategory_name @ ''/images/'' @ stem @ ext))
   \<and> ''strawberries/healthy/images/z.jpg'' \<notin> set (map img_file_name example_images)"
proof -
  have 1: "hd example_images \<in> set example_images" by (simp add: example_images_def)
  have 2: "''strawberries/healthy/images/z.jpg'' \<notin> set (map img_file_name example_images)"
    by (simp add: example_images_def)
  from emitted_images_in_split[OF example_collect] 1 have
    "\<exists>split_list.
         read_split_list example_fs ([] @ [''sets'', ''train'' @ ''.txt'']) = Inr split_list
       \<and> (\<exists>subcategory_name stem ext.
               stem \<in> set split_list \<and> ext \<in> set extensions
             \<and> path_stem [stem @ ext] = stem
             \<and> img_file_name (hd example_images) =
                 ''strawberries'' @ ''/'' @ subcategory_name @ ''/images/'' @ stem @ ext)"
    by blast
  with example_collect 2 show ?thesis by blast
qed




text \<open>
  C3. The claim is that the output depends on the files only, every traversal being
  sorted. The stems of one subcategory are sorted, the subcategories are visited in
  the order \<^verbatim>\<open>iterdir\<close> yields them: the two trees below hold the same files
  under the same paths, enumerated in two orders, and the documents differ in the ids.
\<close>

theorem subcategory_order_changes_ids:
  "collect_annotations_for_category example_float example_int example_fs [] ''train''
     ''strawberries'' = Inr (example_images, example_anns, example_categories)
   \<and> collect_annotations_for_category example_float example_int example_fs_swapped [] ''train''
     ''strawberries'' = Inr (example_images_swapped, example_anns_swapped, example_categories)
   \<and> example_images \<noteq> example_images_swapped
   \<and> example_anns \<noteq> example_anns_swapped
   \<and> lookup example_fs (c # cs) = lookup example_fs_swapped (c # cs)"
proof -
  have 1: "collect_annotations_for_category example_float example_int example_fs_swapped []
     ''train'' ''strawberries''
       = Inr (example_images_swapped, example_anns_swapped, example_categories)"
    by code_simp
  have 2: "example_images \<noteq> example_images_swapped"
    by (simp add: example_images_def example_images_swapped_def)
  have 3: "example_anns \<noteq> example_anns_swapped"
    by (simp add: example_anns_def example_anns_swapped_def)
  have 4: "lookup example_fs (c # cs) = lookup example_fs_swapped (c # cs)"
    by (simp add: example_fs_def example_fs_swapped_def)
  from example_collect 1 2 3 4 show ?thesis by simp
qed


end
